theory Spec2Isabelle
  imports Complex_Main
begin

section \<open>The benchmark orchestration script\<close>

text \<open>
  \<^verbatim>\<open>scripts/run_full_benchmark.sh\<close> is a straight-line bash script run under
  \<^verbatim>\<open>set -euo pipefail\<close>. Every command that can change a store or the file system is
  one constructor below, in the order of the script; the \<^verbatim>\<open>echo\<close> banners and
  the plain variable assignments are left out. Stores are named as the script names them:
  by host port for the Python tools and alembic (5434 is PostgreSQL, 5435 is TimescaleDB),
  by container name for \<^verbatim>\<open>podman exec ... psql\<close>.
\<close>

datatype command =
    Setup string
  | ComposeUp "string list"
  | Alembic nat string
  | DisableTrigger string string string
  | Seed nat
  | Benchmark string nat string
  | ConvertToHypertable nat
  | ApplyCompression nat
  | AnalyzeResults string string

text \<open>Steps 1 and 2 of the script: infrastructure, migrations, trigger suspension.\<close>

definition setup_commands :: "command list" where
  "setup_commands =
    [ Setup ''SCRIPT_DIR=$(cd $(dirname ${BASH_SOURCE[0]}) && pwd)'',
      Setup ''WORKSPACE_ROOT=$(cd $SCRIPT_DIR/.. && pwd)'',
      Setup ''mkdir -p $LOGS_DIR'',
      Setup ''mkdir -p $RESULTS_DIR'',
      Setup ''cd $WORKSPACE_ROOT'',
      ComposeUp [''postgres'', ''postgres-test'', ''redis'', ''timescaledb''],
      Setup ''sleep 5'',
      Setup ''source .venv/bin/activate'',
      Setup ''cd api'',
      Alembic 5434 ''pre@head'',
      Alembic 5434 ''post@head'',
      Alembic 5435 ''pre@head'',
      Alembic 5435 ''post@head'',
      DisableTrigger ''pc-postgres'' ''user'' ''ensure_password_or_sso_exists'',
      DisableTrigger ''pc-postgres'' ''booking'' ''booking_update'',
      DisableTrigger ''pc-timescaledb'' ''user'' ''ensure_password_or_sso_exists'',
      DisableTrigger ''pc-timescaledb'' ''booking'' ''booking_update'' ]"

text \<open>Steps 3 to 10 of the script.\<close>

definition pipeline :: "command list" where
  "pipeline =
    [ Seed 5434,
      Seed 5435,
      Benchmark ''postgres'' 5434 ''results/baseline_postgres.json'',
      ConvertToHypertable 5435,
      Benchmark ''timescaledb'' 5435 ''results/strategy1_hypertable.json'',
      ApplyCompression 5435,
      Benchmark ''timescaledb'' 5435 ''results/strategy2_compression.json'',
      AnalyzeResults ''results'' ''results/comparison_report.txt'' ]"

definition run_full_benchmark :: "command list" where
  "run_full_benchmark = setup_commands @ pipeline"

text \<open>
  The only host-side state the script itself changes is which validation triggers are
  disabled. A trigger is named by container, table and trigger name.
  \<^verbatim>\<open>ALTER TABLE t DISABLE TRIGGER g\<close> adds one to the set; the script holds no
  \<^verbatim>\<open>ENABLE TRIGGER\<close> command, no \<^verbatim>\<open>trap\<close> and no clean-up step.

  Modelled from the spec: what the Python tools, which are not in the sources, do to the
  trigger state. By section 6 suspending and restoring the triggers is an external set-up
  and tear-down step that the tools do not own, so they leave the set as it is.
\<close>

type_synonym trigger = "string \<times> string \<times> string"

fun effect :: "command \<Rightarrow> trigger set \<Rightarrow> trigger set" where
  "effect (DisableTrigger c t g) s = insert (c, t, g) s"
| "effect _ s = s"

text \<open>
  Running the script. \<open>ok i\<close> tells whether the \<open>i\<close>-th command exits with
  status 0 (for a \<^verbatim>\<open>python ... 2>&1 | tee log\<close> pipeline, under \<^verbatim>\<open>pipefail\<close>,
  whether every part of the pipeline does). Under \<^verbatim>\<open>set -e\<close> the first command that
  fails ends the script; a failed command has no effect on the trigger state. The result
  is the list of commands started, each with the trigger state it started in and whether
  it succeeded, and the trigger state the script terminates in.
\<close>

type_synonym event = "command \<times> trigger set \<times> bool"

fun run_script :: "(nat \<Rightarrow> bool) \<Rightarrow> nat \<Rightarrow> trigger set \<Rightarrow> command list \<Rightarrow> event list \<times> trigger set" where
  "run_script ok i s [] = ([], s)"
| "run_script ok i s (c # cs) =
     (if ok i
      then (case run_script ok (Suc i) (effect c s) cs of
              (es, s') \<Rightarrow> ((c, s, True) # es, s'))
      else ([(c, s, False)], s))"

definition trace :: "(nat \<Rightarrow> bool) \<Rightarrow> event list" where
  "trace ok = fst (run_script ok 0 {} run_full_benchmark)"

definition started :: "(nat \<Rightarrow> bool) \<Rightarrow> command list" where
  "started ok = map fst (trace ok)"

definition completed :: "(nat \<Rightarrow> bool) \<Rightarrow> command list" where
  "completed ok = map fst (filter (\<lambda>e. snd (snd e)) (trace ok))"

definition triggers_at_exit :: "(nat \<Rightarrow> bool) \<Rightarrow> trigger set" where
  "triggers_at_exit ok = snd (run_script ok 0 {} run_full_benchmark)"

text \<open>
  Whether the script exits with status 0: it does when every command it started
  succeeded; otherwise it exits with the status of the command that failed, which is not
  0.
\<close>

definition exits_zero :: "(nat \<Rightarrow> bool) \<Rightarrow> bool" where
  "exits_zero ok = list_all (\<lambda>e. snd (snd e)) (trace ok)"

text \<open>The steps of the pipeline proper, as opposed to set-up.\<close>

fun is_step :: "command \<Rightarrow> bool" where
  "is_step (Seed p) = True"
| "is_step (Benchmark d p out) = True"
| "is_step (ConvertToHypertable p) = True"
| "is_step (ApplyCompression p) = True"
| "is_step (AnalyzeResults d out) = True"
| "is_step _ = False"

text \<open>The store a layout transform is applied to, for the two converter commands.\<close>

fun transform_port :: "command \<Rightarrow> nat option" where
  "transform_port (ConvertToHypertable p) = Some p"
| "transform_port (ApplyCompression p) = Some p"
| "transform_port _ = None"

text \<open>
  The baseline store is the one the control measurement of step 5 is taken on
  (\<^verbatim>\<open>--database postgres --port 5434\<close>, output \<^verbatim>\<open>baseline_postgres.json\<close>); the
  experiment store is the TimescaleDB instance on port 5435.
\<close>

definition baseline_port :: nat where
  "baseline_port = 5434"

definition experiment_port :: nat where
  "experiment_port = 5435"

text \<open>Two outcome oracles: every command succeeds; every command but the \<open>k\<close>-th does.\<close>

definition all_succeed :: "nat \<Rightarrow> bool" where
  "all_succeed i = True"

definition fails_at :: "nat \<Rightarrow> nat \<Rightarrow> bool" where
  "fails_at k i = (i \<noteq> k)"

text \<open>The number of commands that succeed before the first failure.\<close>

fun n_ok :: "(nat \<Rightarrow> bool) \<Rightarrow> nat \<Rightarrow> command list \<Rightarrow> nat" where
  "n_ok ok i [] = 0"
| "n_ok ok i (c # cs) = (if ok i then Suc (n_ok ok (Suc i) cs) else 0)"

definition started_steps :: "(nat \<Rightarrow> bool) \<Rightarrow> command list" where
  "started_steps ok = filter is_step (started ok)"

definition completed_steps :: "(nat \<Rightarrow> bool) \<Rightarrow> command list" where
  "completed_steps ok = filter is_step (completed ok)"

definition validation_triggers :: "trigger set" where
  "validation_triggers =
    { (''pc-postgres'', ''user'', ''ensure_password_or_sso_exists''),
      (''pc-postgres'', ''booking'', ''booking_update''),
      (''pc-timescaledb'', ''user'', ''ensure_password_or_sso_exists''),
      (''pc-timescaledb'', ''booking'', ''booking_update'') }"

fun is_seed :: "command \<Rightarrow> bool" where
  "is_seed (Seed p) = True"
| "is_seed _ = False"

section \<open>The incremental seeding performance test\<close>

text \<open>
  The second script (a bash script under \<^verbatim>\<open>set -e\<close>, without \<^verbatim>\<open>pipefail\<close>) seeds
  the experiment store with 10000, 100000 and 500000 bookings in turn, times each run
  with \<^verbatim>\<open>date +%s\<close> and prints a rate and three extrapolations.

  Bash arithmetic is on 64-bit signed integers and \<^verbatim>\<open>/\<close> truncates towards zero; the
  values here (epoch seconds, at most 5000000 bookings) stay far inside that range, so
  they are modelled as \<open>int\<close> with the truncation written out. Dividing by zero is an
  expansion error.
\<close>

datatype bash_error = DivisionByZero

definition tdiv :: "int \<Rightarrow> int \<Rightarrow> int" where
  "tdiv a b = sgn a * sgn b * (\<bar>a\<bar> div \<bar>b\<bar>)"

definition bash_div :: "int \<Rightarrow> int \<Rightarrow> bash_error + int" where
  "bash_div a b = (if b = 0 then Inl DivisionByZero else Inr (tdiv a b))"

text \<open>
  What one seeding run gives the script: the two clock readings around it, and whether
  the \<^verbatim>\<open>python ... 2>&1 | tee log\<close> pipeline exits with status 0. Without
  \<^verbatim>\<open>pipefail\<close> that is the status of \<^verbatim>\<open>tee\<close>; a failing seed alone does not stop
  the script.
\<close>

record run =
  start_time :: int
  end_time :: int
  tee_ok :: bool

text \<open>The lines the script itself prints (blank lines and rulers left out).\<close>

datatype line =
    Banner
  | Testing int
  | Completed int int
  | Rate int
  | Extrapolations
  | Estimate int int int
  | Finished

text \<open>
  How a loop iteration can end early: an expansion error in an arithmetic expansion, or a
  command that fails under \<^verbatim>\<open>set -e\<close>.
\<close>

datatype stop = ExpansionError bash_error | CommandFailed

text \<open>
  One extrapolation line:
  \<^verbatim>\<open>echo "  1M bookings: ~$((1000000 / RATE)) seconds (~$((1000000 / RATE / 60)) minutes)"\<close>.
  The expansions are evaluated before \<^verbatim>\<open>echo\<close> runs, so an error prints nothing.
\<close>

definition estimate :: "int \<Rightarrow> int \<Rightarrow> bash_error + line" where
  "estimate target RATE =
     (case bash_div target RATE of
        Inl e \<Rightarrow> Inl e
      | Inr secs \<Rightarrow>
          (case bash_div secs 60 of
             Inl e \<Rightarrow> Inl e
           | Inr mins \<Rightarrow> Inr (Estimate target secs mins)))"

text \<open>The body of the loop for one \<^verbatim>\<open>SIZE\<close>, with the lines printed up to its end.\<close>

definition iteration :: "int \<Rightarrow> run \<Rightarrow> line list \<times> stop option" where
  "iteration SIZE r =
    (if \<not> tee_ok r then ([Testing SIZE], Some CommandFailed)
     else
       let DURATION = end_time r - start_time r;
           out1 = [Testing SIZE, Completed SIZE DURATION]
       in case bash_div SIZE DURATION of
            Inl e \<Rightarrow> (out1, Some (ExpansionError e))
          | Inr shown \<Rightarrow>
              (let out2 = out1 @ [Rate shown] in
               case bash_div SIZE DURATION of
                 Inl e \<Rightarrow> (out2, Some (ExpansionError e))
               | Inr RATE \<Rightarrow>
                   (let out3 = out2 @ [Extrapolations] in
                    case estimate 1000000 RATE of
                      Inl e \<Rightarrow> (out3, Some (ExpansionError e))
                    | Inr l1 \<Rightarrow>
                        (case estimate 2000000 RATE of
                           Inl e \<Rightarrow> (out3 @ [l1], Some (ExpansionError e))
                         | Inr l2 \<Rightarrow>
                             (case estimate 5000000 RATE of
                                Inl e \<Rightarrow> (out3 @ [l1, l2], Some (ExpansionError e))
                              | Inr l3 \<Rightarrow> (out3 @ [l1, l2, l3], None))))))"

text \<open>
  The \<^verbatim>\<open>for SIZE in "${SIZES[@]}"\<close> loop: it ends at the first iteration that ends
  early. \<open>env size\<close> is the seeding run for \<open>size\<close>.
\<close>

definition SIZES :: "int list" where
  "SIZES = [10000, 100000, 500000]"

fun for_sizes :: "(int \<Rightarrow> run) \<Rightarrow> int list \<Rightarrow> line list \<times> stop option" where
  "for_sizes env [] = ([], None)"
| "for_sizes env (SIZE # rest) =
     (case iteration SIZE (env SIZE) of
        (ls, Some e) \<Rightarrow> (ls, Some e)
      | (ls, None) \<Rightarrow> (case for_sizes env rest of (ls', e) \<Rightarrow> (ls @ ls', e)))"

text \<open>
  The whole script, with its output and whether it exits with status 0 (a script ended
  by a failing command exits with that command's status). \<open>setup_ok\<close> tells whether
  \<^verbatim>\<open>source ../.venv/bin/activate\<close> and \<^verbatim>\<open>cd ../api\<close> succeed. A command that
  fails ends the script at once (\<^verbatim>\<open>set -e\<close>). An expansion error is not a failed
  command: bash discards the compound command it is executing, here the whole loop, and
  resumes with the next command of the script, the closing banner.
\<close>

definition incremental_test :: "bool \<Rightarrow> (int \<Rightarrow> run) \<Rightarrow> line list \<times> bool" where
  "incremental_test setup_ok env =
     (if \<not> setup_ok then ([Banner], False)
      else case for_sizes env SIZES of
             (ls, Some CommandFailed) \<Rightarrow> (Banner # ls, False)
           | (ls, Some (ExpansionError e)) \<Rightarrow> (Banner # ls @ [Finished], True)
           | (ls, None) \<Rightarrow> (Banner # ls @ [Finished], True))"

text \<open>A run that starts and ends within the same second, and one that takes 50 seconds.\<close>

definition same_second :: "int \<Rightarrow> run" where
  "same_second SIZE = \<lparr>start_time = 1700000000, end_time = 1700000000, tee_ok = True\<rparr>"

definition fifty_seconds :: "int \<Rightarrow> run" where
  "fifty_seconds SIZE = \<lparr>start_time = 1700000000, end_time = 1700000050, tee_ok = True\<rparr>"

section \<open>The synthetic data generator\<close>

text \<open>
  The seed script itself (\<^verbatim>\<open>scripts/seed_timescaledb_standalone.py\<close>) is not among the
  sources. What the sources hold of it is in the status document: the bulk-insert step
  before and after the fix of the \<^verbatim>\<open>execute_values\<close> defect, the behaviour of
  \<^verbatim>\<open>execute_values\<close> that caused it, the symptom of the defect, and the postal-code
  formula before and after its fix. Those are modelled as they are written there; the
  loops around them are modelled from section 4.1 of the specification and marked so.
\<close>

subsection \<open>Pages and batches\<close>

text \<open>
  Consecutive slices of at most \<open>n\<close> elements: the pages of
  \<^verbatim>\<open>execute_values(..., page_size=n)\<close> and the batches of a generation phase.
\<close>

function paginate :: "nat \<Rightarrow> 'a list \<Rightarrow> 'a list list" where
  "paginate n xs = (if n = 0 \<or> xs = [] then [] else take n xs # paginate n (drop n xs))"
  by pat_completeness auto
termination
  by (relation "measure (\<lambda>(n, xs). length xs)") auto

declare paginate.simps [simp del]

subsection \<open>Bulk insert returning identifiers\<close>






datatype entity = User | Deposit | Offerer | Address | OffererAddress | Venue | Offer | Stock | Booking

datatype gen_error =
    NoResultSet entity nat
  | IndexError nat
  | CheckViolation entity nat










subsection \<open>Postal codes\<close>

text \<open>
  The postal code of the \<open>i\<close>-th generated address or venue, as the status document
  gives it: \<^verbatim>\<open>(i % 90000 + 10000)\<close>, and before the fix \<^verbatim>\<open>(i % 90000 + 1000)\<close>.
  Python's \<^verbatim>\<open>%\<close> with a positive modulus is \<open>mod\<close> on \<open>int\<close>. The schema's check
  constraint accepts the range 10000 to 99999.
\<close>

definition postal_code :: "int \<Rightarrow> int" where
  "postal_code i = i mod 90000 + 10000"

definition postal_code_before_fix :: "int \<Rightarrow> int" where
  "postal_code_before_fix i = i mod 90000 + 1000"

definition valid_postal_code :: "int \<Rightarrow> bool" where
  "valid_postal_code c = (10000 \<le> c \<and> c \<le> 99999)"

text \<open>
  Modelled from the spec: the insertion of the generated postal codes, which is in the seed
  script and not in the sources. The rows \<open>0, ..., count - 1\<close> are submitted in batches;
  the store checks every row of a batch against the constraint and rejects the batch on a
  violation, which aborts the phase with an error naming the batch (section 4.1; the
  status document records that address generation failed "with check constraint
  violation"). A stored code is the generated code: nothing brings a value into range.
\<close>

fun insert_postal_codes :: "entity \<Rightarrow> nat \<Rightarrow> int list list \<Rightarrow> int list \<Rightarrow> gen_error + int list" where
  "insert_postal_codes ent k [] table = Inr table"
| "insert_postal_codes ent k (batch # rest) table =
     (if list_all valid_postal_code batch
      then insert_postal_codes ent (Suc k) rest (table @ batch)
      else Inl (CheckViolation ent k))"

definition generate_postal_codes :: "(int \<Rightarrow> int) \<Rightarrow> entity \<Rightarrow> nat \<Rightarrow> nat \<Rightarrow> gen_error + int list" where
  "generate_postal_codes formula ent count batch_size =
     insert_postal_codes ent 0 (paginate batch_size (map (\<lambda>i. formula (int i)) [0..<count])) []"

section \<open>The benchmark runner and the compression report\<close>

subsection \<open>The scenario suite\<close>

text \<open>
  The eleven scenarios of \<^verbatim>\<open>scripts/benchmark_bookings_query.py\<close>, as the status
  document lists them: the name, the kind of query, and the rolling window in days. A
  listing query carries its page size and offset ("20 results", "offset 80").
\<close>

datatype booking_status = CONFIRMED | USED | CANCELLED | REIMBURSED

datatype query =
    CountQuery
  | ListQuery nat nat
  | StatusFilter booking_status
  | VenueFilter

record scenario =
  scenario_name :: string
  scenario_query :: query
  window_days :: nat









text \<open>
  Modelled from the spec: the runner's loop, which is in the benchmark script and not in
  the sources. Section 4.3: each scenario is executed \<open>repetitions\<close> times (10 when none
  is given, the "10 runs per query" of the status document and of the orchestration
  script's banners), strictly one after the other, and the timing of each repetition is
  recorded on its own under the scenario's name. \<open>timing sc k\<close> is the outcome of the
  \<open>k\<close>-th execution of \<open>sc\<close>: the time it takes, in a unit of the caller's choice,
  or \<open>None\<close> when the query fails or times out. A failure does not end the run
  (sections 4.3 and 7): as section 9 recommends, a failed execution is not retried, it
  leaves no sample and is counted in the result.
\<close>

record 't benchmark_result =
  result_name :: string
  samples :: "'t list"
  failures :: nat

definition default_repetitions :: nat where
  "default_repetitions = 10"

definition run_scenario ::
  "(scenario \<Rightarrow> nat \<Rightarrow> 't option) \<Rightarrow> nat \<Rightarrow> scenario \<Rightarrow> 't benchmark_result" where
  "run_scenario timing repetitions sc =
     \<lparr>result_name = scenario_name sc,
      samples = List.map_filter (timing sc) [0..<repetitions],
      failures = length (filter (\<lambda>k. timing sc k = None) [0..<repetitions])\<rparr>"



definition fourth_times_out :: "scenario \<Rightarrow> nat \<Rightarrow> nat option" where
  "fourth_times_out sc k = (if k = 3 then None else Some (window_days sc + k))"

subsection \<open>The compression report\<close>

text \<open>
  Modelled from the spec: the per-chunk report of \<^verbatim>\<open>scripts/apply_compression.py\<close>,
  which is not in the sources (the status document only says that it "reports compression
  ratios per chunk"). Section 4.2: the ratio of a chunk is its uncompressed size divided
  by its compressed size; a ratio below 1 is a measurement or configuration error and is
  surfaced instead of being reported. Sizes are in bytes. A compressed size of 0 leaves
  the ratio undefined and is an error as well.
\<close>

record chunk =
  chunk_name :: string
  uncompressed_bytes :: nat
  compressed_bytes :: nat

datatype compression_error = RatioBelowOne string rat | NoCompressedSize string

definition compression_ratio :: "chunk \<Rightarrow> rat" where
  "compression_ratio c = of_nat (uncompressed_bytes c) / of_nat (compressed_bytes c)"

definition report_chunk :: "chunk \<Rightarrow> compression_error + string \<times> rat" where
  "report_chunk c =
     (if compressed_bytes c = 0 then Inl (NoCompressedSize (chunk_name c))
      else if compression_ratio c < 1
        then Inl (RatioBelowOne (chunk_name c) (compression_ratio c))
        else Inr (chunk_name c, compression_ratio c))"

fun report_chunks :: "chunk list \<Rightarrow> compression_error + (string \<times> rat) list" where
  "report_chunks [] = Inr []"
| "report_chunks (c # cs) =
     (case report_chunk c of
        Inl e \<Rightarrow> Inl e
      | Inr r \<Rightarrow> (case report_chunks cs of Inl e \<Rightarrow> Inl e | Inr rs \<Rightarrow> Inr (r # rs)))"

text \<open>Two chunks: one that shrank to a quarter, one that grew.\<close>

definition shrunk_chunk :: chunk where
  "shrunk_chunk = \<lparr>chunk_name = ''_hyper_1_1_chunk'', uncompressed_bytes = 8192000, compressed_bytes = 2048000\<rparr>"

definition grown_chunk :: chunk where
  "grown_chunk = \<lparr>chunk_name = ''_hyper_1_2_chunk'', uncompressed_bytes = 8192, compressed_bytes = 16384\<rparr>"

section \<open>Properties of the orchestration\<close>

subsection \<open>Traces of the script\<close>

lemma run_script_started:
  "map fst (fst (run_script ok i s cs)) = take (Suc (n_ok ok i cs)) cs"
  by (induction cs arbitrary: i s) (simp_all add: case_prod_beta)

lemma run_script_completed:
  "map fst (filter (\<lambda>e. snd (snd e)) (fst (run_script ok i s cs))) = take (n_ok ok i cs) cs"
  by (induction cs arbitrary: i s) (simp_all add: case_prod_beta)

lemma started_take: "started ok = take (Suc (n_ok ok 0 run_full_benchmark)) run_full_benchmark"
  by (simp add: started_def trace_def run_script_started)

lemma completed_take: "completed ok = take (n_ok ok 0 run_full_benchmark) run_full_benchmark"
  by (simp add: completed_def trace_def run_script_completed)

subsection \<open>The order of the steps\<close>

lemma filter_setup: "filter is_step (take k setup_commands) = []"
proof -
  have "\<forall>c \<in> set setup_commands. \<not> is_step c"
    by (simp add: setup_commands_def)
  then have "\<forall>c \<in> set (take k setup_commands). \<not> is_step c"
    using in_set_takeD by fastforce
  then show ?thesis
    by (simp add: filter_empty_conv)
qed

lemma filter_pipeline: "filter is_step (take k pipeline) = take k pipeline"
proof -
  have "\<forall>c \<in> set pipeline. is_step c"
    by (simp add: pipeline_def)
  then have "\<forall>c \<in> set (take k pipeline). is_step c"
    using in_set_takeD by fastforce
  then show ?thesis
    by (simp add: filter_id_conv)
qed

lemma length_setup: "length setup_commands = 17"
  by (simp add: setup_commands_def)

lemma steps_take: "filter is_step (take k run_full_benchmark) = take (k - 17) pipeline"
  by (simp add: run_full_benchmark_def filter_setup filter_pipeline length_setup)

lemma steps_prefix:
  "\<exists>k. completed_steps ok = take k pipeline \<and>
       (started_steps ok = take k pipeline \<or> started_steps ok = take (Suc k) pipeline)"
proof -
  define n where "n = n_ok ok 0 run_full_benchmark"
  have d: "completed_steps ok = take (n - 17) pipeline"
    by (simp add: completed_steps_def completed_take steps_take n_def)
  have s: "started_steps ok = take (Suc n - 17) pipeline"
    by (simp add: started_steps_def started_take steps_take n_def)
  show ?thesis
  proof (cases "17 \<le> n")
    case True
    then have "Suc n - 17 = Suc (n - 17)" by simp
    with d s show ?thesis by metis
  next
    case False
    then have "Suc n - 17 = n - 17" by simp
    with d s show ?thesis by metis
  qed
qed

lemma n_ok_all: "n_ok all_succeed i cs = length cs"
  by (induction cs arbitrary: i) (simp_all add: all_succeed_def)

lemma started_all: "started all_succeed = run_full_benchmark"
  by (simp add: started_take n_ok_all)

lemma completed_all: "completed all_succeed = run_full_benchmark"
  by (simp add: completed_take n_ok_all)

lemma before_completed:
  assumes "distinct xs" and "p < length xs" and "q < p"
    and "xs ! p \<in> set S" and "S = take k xs \<or> S = take (Suc k) xs"
  shows "xs ! q \<in> set (take k xs)"
proof -
  have "set (take k xs) \<subseteq> set (take (Suc k) xs)"
    by (simp add: set_take_subset_set_take)
  with assms(4,5) have "xs ! p \<in> set (take (Suc k) xs)"
    by auto
  then obtain j where j: "j < length (take (Suc k) xs)" "take (Suc k) xs ! j = xs ! p"
    by (auto simp: in_set_conv_nth)
  then have "j < length xs" "j < Suc k" "xs ! j = xs ! p"
    by simp_all
  with assms(1,2) have "j = p"
    by (simp add: nth_eq_iff_index_eq)
  with \<open>j < Suc k\<close> assms(3) have "q < k"
    by simp
  moreover from assms(2,3) have "q < length xs"
    by simp
  ultimately show ?thesis
    by (auto simp: in_set_conv_nth intro!: exI [of _ q])
qed

lemma distinct_pipeline: "distinct pipeline"
  by (simp add: pipeline_def)

lemma step_before:
  assumes "p < 8" and "q < p" and "pipeline ! p \<in> set (started ok)"
  shows "pipeline ! q \<in> set (completed ok)"
proof -
  obtain k where d: "completed_steps ok = take k pipeline"
    and s: "started_steps ok = take k pipeline \<or> started_steps ok = take (Suc k) pipeline"
    using steps_prefix by blast
  have len: "length pipeline = 8"
    by (simp add: pipeline_def)
  have all: "\<forall>c \<in> set pipeline. is_step c"
    by (simp add: pipeline_def)
  from assms(1) len all have "is_step (pipeline ! p)"
    by simp
  with assms(3) have "pipeline ! p \<in> set (started_steps ok)"
    by (simp add: started_steps_def)
  with distinct_pipeline assms(1,2) len s have "pipeline ! q \<in> set (take k pipeline)"
    using before_completed [of pipeline p q "started_steps ok" k] by simp
  with d have "pipeline ! q \<in> set (filter is_step (completed ok))"
    by (simp add: completed_steps_def)
  then show ?thesis
    by simp
qed

text \<open>
  Claim C2. Whatever commands succeed or fail, the pipeline steps run in the one order of
  the script: the steps completed are the first \<open>k\<close> of \<open>pipeline\<close> (seed of the
  baseline store, seed of the experiment store, baseline benchmark, partition transform,
  benchmark, compression transform, benchmark, analyzer), and the steps started are those
  and at most the next one, which is then the step that failed. So the baseline benchmark
  starts only once both seeds have completed, the partition transform only after the
  baseline benchmark, the compression transform only after the partition transform and
  its benchmark have completed, and the analyzer only after all three benchmark passes
  have completed and written their outputs.
\<close>

theorem pipeline_fixed_order:
  "(\<exists>k. completed_steps ok = take k pipeline \<and>
        (started_steps ok = take k pipeline \<or> started_steps ok = take (Suc k) pipeline))
   \<and> (Benchmark ''postgres'' 5434 ''results/baseline_postgres.json'' \<in> set (started ok) \<longrightarrow>
        Seed 5434 \<in> set (completed ok) \<and> Seed 5435 \<in> set (completed ok))
   \<and> (ConvertToHypertable 5435 \<in> set (started ok) \<longrightarrow>
        Benchmark ''postgres'' 5434 ''results/baseline_postgres.json'' \<in> set (completed ok))
   \<and> (Benchmark ''timescaledb'' 5435 ''results/strategy1_hypertable.json'' \<in> set (started ok) \<longrightarrow>
        ConvertToHypertable 5435 \<in> set (completed ok))
   \<and> (ApplyCompression 5435 \<in> set (started ok) \<longrightarrow>
        ConvertToHypertable 5435 \<in> set (completed ok) \<and>
        Benchmark ''timescaledb'' 5435 ''results/strategy1_hypertable.json'' \<in> set (completed ok))
   \<and> (Benchmark ''timescaledb'' 5435 ''results/strategy2_compression.json'' \<in> set (started ok) \<longrightarrow>
        ApplyCompression 5435 \<in> set (completed ok))
   \<and> (AnalyzeResults ''results'' ''results/comparison_report.txt'' \<in> set (started ok) \<longrightarrow>
        Benchmark ''postgres'' 5434 ''results/baseline_postgres.json'' \<in> set (completed ok) \<and>
        Benchmark ''timescaledb'' 5435 ''results/strategy1_hypertable.json'' \<in> set (completed ok) \<and>
        Benchmark ''timescaledb'' 5435 ''results/strategy2_compression.json'' \<in> set (completed ok))"
proof -
  have nth: "pipeline ! 0 = Seed 5434" "pipeline ! Suc 0 = Seed 5435"
    "pipeline ! 2 = Benchmark ''postgres'' 5434 ''results/baseline_postgres.json''"
    "pipeline ! 3 = ConvertToHypertable 5435"
    "pipeline ! 4 = Benchmark ''timescaledb'' 5435 ''results/strategy1_hypertable.json''"
    "pipeline ! 5 = ApplyCompression 5435"
    "pipeline ! 6 = Benchmark ''timescaledb'' 5435 ''results/strategy2_compression.json''"
    "pipeline ! 7 = AnalyzeResults ''results'' ''results/comparison_report.txt''"
    by (simp_all add: pipeline_def)
  have c1: "Seed 5434 \<in> set (completed ok) \<and> Seed 5435 \<in> set (completed ok)"
    if "Benchmark ''postgres'' 5434 ''results/baseline_postgres.json'' \<in> set (started ok)"
    using that step_before [of 2 0 ok] step_before [of 2 1 ok] by (simp add: nth)
  have c2: "Benchmark ''postgres'' 5434 ''results/baseline_postgres.json'' \<in> set (completed ok)"
    if "ConvertToHypertable 5435 \<in> set (started ok)"
    using that step_before [of 3 2 ok] by (simp add: nth)
  have c3: "ConvertToHypertable 5435 \<in> set (completed ok)"
    if "Benchmark ''timescaledb'' 5435 ''results/strategy1_hypertable.json'' \<in> set (started ok)"
    using that step_before [of 4 3 ok] by (simp add: nth)
  have c4: "ConvertToHypertable 5435 \<in> set (completed ok) \<and>
      Benchmark ''timescaledb'' 5435 ''results/strategy1_hypertable.json'' \<in> set (completed ok)"
    if "ApplyCompression 5435 \<in> set (started ok)"
    using that step_before [of 5 3 ok] step_before [of 5 4 ok] by (simp add: nth)
  have c5: "ApplyCompression 5435 \<in> set (completed ok)"
    if "Benchmark ''timescaledb'' 5435 ''results/strategy2_compression.json'' \<in> set (started ok)"
    using that step_before [of 6 5 ok] by (simp add: nth)
  have c6: "Benchmark ''postgres'' 5434 ''results/baseline_postgres.json'' \<in> set (completed ok) \<and>
      Benchmark ''timescaledb'' 5435 ''results/strategy1_hypertable.json'' \<in> set (completed ok) \<and>
      Benchmark ''timescaledb'' 5435 ''results/strategy2_compression.json'' \<in> set (completed ok)"
    if "AnalyzeResults ''results'' ''results/comparison_report.txt'' \<in> set (started ok)"
    using that step_before [of 7 2 ok] step_before [of 7 4 ok] step_before [of 7 6 ok]
    by (simp add: nth)
  from steps_prefix [of ok] c1 c2 c3 c4 c5 c6 show ?thesis
    by blast
qed

theorem pipeline_fixed_order_witness:
  "AnalyzeResults ''results'' ''results/comparison_report.txt'' \<in> set (started all_succeed)
   \<and> Benchmark ''postgres'' 5434 ''results/baseline_postgres.json'' \<in> set (completed all_succeed)
   \<and> Benchmark ''timescaledb'' 5435 ''results/strategy1_hypertable.json'' \<in> set (completed all_succeed)
   \<and> Benchmark ''timescaledb'' 5435 ''results/strategy2_compression.json'' \<in> set (completed all_succeed)
   \<and> ApplyCompression 5435 \<in> set (started all_succeed)
   \<and> ConvertToHypertable 5435 \<in> set (completed all_succeed)"
proof -
  have a: "AnalyzeResults ''results'' ''results/comparison_report.txt'' \<in> set (started all_succeed)"
    by (simp add: started_all run_full_benchmark_def pipeline_def)
  have b: "ApplyCompression 5435 \<in> set (started all_succeed)"
    by (simp add: started_all run_full_benchmark_def pipeline_def)
  from a b pipeline_fixed_order [of all_succeed] show ?thesis
    by blast
qed

subsection \<open>The stores the transforms are applied to\<close>

lemma started_subset: "set (started ok) \<subseteq> set run_full_benchmark"
  by (simp add: started_take set_take_subset)

text \<open>
  Claim C3. In every execution of the script, whatever commands succeed or fail, each
  layout transform that is started (the conversion to a hypertable and the compression)
  is applied to the experiment store on port 5435 and never to the baseline store on port
  5434; and the control measurement written to \<^verbatim>\<open>baseline_postgres.json\<close> is taken
  on the baseline store.
\<close>

theorem transforms_only_on_experiment_store:
  "(\<forall>c \<in> set (started ok). \<forall>p. transform_port c = Some p \<longrightarrow>
       p = experiment_port \<and> p \<noteq> baseline_port)
   \<and> (\<forall>d q. Benchmark d q ''results/baseline_postgres.json'' \<in> set (started ok) \<longrightarrow>
       q = baseline_port)"
proof -
  have t: "\<forall>c \<in> set run_full_benchmark. \<forall>p. transform_port c = Some p \<longrightarrow>
      p = experiment_port \<and> p \<noteq> baseline_port"
    by (simp add: run_full_benchmark_def setup_commands_def pipeline_def
        experiment_port_def baseline_port_def)
  have b: "\<forall>d q. Benchmark d q ''results/baseline_postgres.json'' \<in> set run_full_benchmark \<longrightarrow>
      q = baseline_port"
    by (simp add: run_full_benchmark_def setup_commands_def pipeline_def baseline_port_def)
  from t b started_subset [of ok] show ?thesis
    by blast
qed

theorem transforms_only_on_experiment_store_witness:
  "ConvertToHypertable 5435 \<in> set (started all_succeed)
   \<and> ApplyCompression 5435 \<in> set (started all_succeed)
   \<and> transform_port (ConvertToHypertable 5435) = Some experiment_port
   \<and> transform_port (ApplyCompression 5435) = Some experiment_port
   \<and> experiment_port \<noteq> baseline_port
   \<and> Benchmark ''postgres'' baseline_port ''results/baseline_postgres.json'' \<in> set (started all_succeed)"
proof -
  have a: "ConvertToHypertable 5435 \<in> set (started all_succeed)"
    "ApplyCompression 5435 \<in> set (started all_succeed)"
    "Benchmark ''postgres'' 5434 ''results/baseline_postgres.json'' \<in> set (started all_succeed)"
    by (simp_all add: started_all run_full_benchmark_def pipeline_def)
  have p: "transform_port (ConvertToHypertable 5435) = Some 5435"
    "transform_port (ApplyCompression 5435) = Some 5435"
    by simp_all
  from a p transforms_only_on_experiment_store [of all_succeed] show ?thesis
    by (metis baseline_port_def)
qed

subsection \<open>The trigger state\<close>

lemma run_script_final:
  "snd (run_script ok i s cs) = foldl (\<lambda>s c. effect c s) s (take (n_ok ok i cs) cs)"
  by (induction cs arbitrary: i s) (simp_all add: case_prod_beta)

lemma run_script_pre:
  "(c, s', b) \<in> set (fst (run_script ok i s cs)) \<Longrightarrow>
   \<exists>j \<le> n_ok ok i cs. j < length cs \<and> c = cs ! j \<and> s' = foldl (\<lambda>s c. effect c s) s (take j cs)"
proof (induction cs arbitrary: i s)
  case Nil
  then show ?case by simp
next
  case (Cons a cs)
  show ?case
  proof (cases "ok i")
    case False
    with Cons.prems show ?thesis by auto
  next
    case True
    with Cons.prems have "(c, s', b) = (a, s, True) \<or>
        (c, s', b) \<in> set (fst (run_script ok (Suc i) (effect a s) cs))"
      by (auto simp: case_prod_beta)
    then show ?thesis
    proof
      assume "(c, s', b) = (a, s, True)"
      then show ?thesis by (intro exI [of _ 0]) simp
    next
      assume "(c, s', b) \<in> set (fst (run_script ok (Suc i) (effect a s) cs))"
      from Cons.IH [OF this] obtain j where "j \<le> n_ok ok (Suc i) cs" "j < length cs"
        "c = cs ! j" "s' = foldl (\<lambda>s c. effect c s) (effect a s) (take j cs)"
        by blast
      with True show ?thesis by (intro exI [of _ "Suc j"]) simp
    qed
  qed
qed

lemma step_no_effect: "is_step c \<Longrightarrow> effect c s = s"
  by (cases c) simp_all

lemma foldl_steps:
  "\<forall>c \<in> set cs. is_step c \<Longrightarrow> foldl (\<lambda>s c. effect c s) s cs = s"
  by (induction cs) (simp_all add: step_no_effect)

lemma setup_triggers: "foldl (\<lambda>s c. effect c s) {} setup_commands = validation_triggers"
  by (auto simp: setup_commands_def validation_triggers_def)

lemma take_pipeline_steps: "\<forall>c \<in> set (take m pipeline). is_step c"
proof -
  have "\<forall>c \<in> set pipeline. is_step c"
    by (simp add: pipeline_def)
  then show ?thesis
    using in_set_takeD by fastforce
qed

lemma pipeline_no_effect: "foldl (\<lambda>s c. effect c s) s (take m pipeline) = s"
  using take_pipeline_steps by (rule foldl_steps)

lemma state_after_setup:
  "17 \<le> j \<Longrightarrow> foldl (\<lambda>s c. effect c s) {} (take j run_full_benchmark) = validation_triggers"
  by (simp add: run_full_benchmark_def length_setup setup_triggers pipeline_no_effect)

lemma seed_position:
  assumes "j < length run_full_benchmark" and "is_seed (run_full_benchmark ! j)"
  shows "17 \<le> j"
proof (rule ccontr)
  assume "\<not> 17 \<le> j"
  then have j: "j < length setup_commands"
    by (simp add: length_setup)
  then have "run_full_benchmark ! j = setup_commands ! j"
    by (simp add: run_full_benchmark_def nth_append)
  moreover have "\<forall>c \<in> set setup_commands. \<not> is_seed c"
    by (simp add: setup_commands_def)
  ultimately show False
    using assms(2) j nth_mem by fastforce
qed

lemma effect_mono: "s \<subseteq> effect c s"
  by (cases c) auto

lemma foldl_effect_mono: "s \<subseteq> foldl (\<lambda>s c. effect c s) s cs"
proof (induction cs arbitrary: s)
  case Nil
  show ?case by simp
next
  case (Cons a cs)
  have "s \<subseteq> effect a s" by (rule effect_mono)
  also have "\<dots> \<subseteq> foldl (\<lambda>s c. effect c s) (effect a s) cs" by (rule Cons.IH)
  finally show ?case by simp
qed

text \<open>
  Claim C9, as amended. The script suspends the validation triggers before the first
  seed and holds no command that re-enables them. So the set of disabled triggers only
  grows along every execution: the triggers disabled when a command starts are still
  disabled when the script terminates. In particular, whenever a seed is started, the four
  validation triggers are disabled at that moment and are exactly the triggers disabled
  when the script terminates, whether it runs to its end or is ended by a failing command.
\<close>

theorem triggers_stay_disabled:
  assumes "(c, s, b) \<in> set (trace ok)"
  shows "s \<subseteq> triggers_at_exit ok
    \<and> (is_seed c \<longrightarrow> s = validation_triggers \<and> triggers_at_exit ok = validation_triggers)"
proof -
  define n where "n = n_ok ok 0 run_full_benchmark"
  let ?f = "\<lambda>k. foldl (\<lambda>s c. effect c s) {} (take k run_full_benchmark)"
  from assms obtain j where j: "j \<le> n" "j < length run_full_benchmark"
    "c = run_full_benchmark ! j" "s = ?f j"
    unfolding trace_def n_def using run_script_pre by blast
  have fin: "triggers_at_exit ok = ?f n"
    by (simp add: triggers_at_exit_def run_script_final n_def)
  have "take n run_full_benchmark = take j run_full_benchmark @ drop j (take n run_full_benchmark)"
    using j(1) by (metis append_take_drop_id min.absorb1 take_take)
  then have "?f n = foldl (\<lambda>s c. effect c s) (?f j) (drop j (take n run_full_benchmark))"
    by (metis foldl_append)
  then have sub: "s \<subseteq> triggers_at_exit ok"
    using fin j(4) foldl_effect_mono by metis
  have seed: "s = validation_triggers \<and> triggers_at_exit ok = validation_triggers" if "is_seed c"
  proof -
    from that j have "17 \<le> j" using seed_position by blast
    with j(1) have "17 \<le> n" by simp
    with \<open>17 \<le> j\<close> fin j(4) show ?thesis by (simp add: state_after_setup)
  qed
  from sub seed show ?thesis by blast
qed


lemma run_script_event:
  "j \<le> n_ok ok i cs \<Longrightarrow> j < length cs \<Longrightarrow>
   (cs ! j, foldl (\<lambda>s c. effect c s) s (take j cs), j < n_ok ok i cs)
     \<in> set (fst (run_script ok i s cs))"
proof (induction cs arbitrary: i s j)
  case Nil
  then show ?case by simp
next
  case (Cons a cs)
  show ?case
  proof (cases j)
    case 0
    then show ?thesis by (simp add: case_prod_beta)
  next
    case (Suc m)
    with Cons.prems have ok: "ok i" and m: "m \<le> n_ok ok (Suc i) cs" "m < length cs"
      by (auto split: if_splits)
    from Cons.IH [OF m] ok Suc show ?thesis
      by (simp add: case_prod_beta)
  qed
qed

lemma run_script_all_ok:
  "list_all (\<lambda>e. snd (snd e)) (fst (run_script ok i s cs)) = (n_ok ok i cs = length cs)"
  by (induction cs arbitrary: i s) (simp_all add: case_prod_beta)

lemma exits_zero_n_ok:
  "exits_zero ok = (n_ok ok 0 run_full_benchmark = length run_full_benchmark)"
  by (simp add: exits_zero_def trace_def run_script_all_ok)

lemma length_script: "length run_full_benchmark = 25"
  by (simp add: run_full_benchmark_def setup_commands_def pipeline_def)

lemma n_ok_fails_at:
  "n_ok (fails_at k) i cs = (if i \<le> k \<and> k < i + length cs then k - i else length cs)"
  by (induction cs arbitrary: i) (auto simp: fails_at_def)

lemma nth_17: "run_full_benchmark ! 17 = Seed 5434"
  by (simp add: run_full_benchmark_def nth_append length_setup pipeline_def)

lemma seed_event_all: "(Seed 5434, validation_triggers, True) \<in> set (trace all_succeed)"
  using run_script_event [of 17 all_succeed 0 run_full_benchmark "{}"]
  by (simp add: trace_def n_ok_all length_script nth_17 state_after_setup)

lemma seed_event_fail: "(Seed 5434, validation_triggers, False) \<in> set (trace (fails_at 17))"
  using run_script_event [of 17 "fails_at 17" 0 run_full_benchmark "{}"]
  by (simp add: trace_def n_ok_fails_at length_script nth_17 state_after_setup)

lemma exit_triggers: "17 \<le> n_ok ok 0 run_full_benchmark \<Longrightarrow> triggers_at_exit ok = validation_triggers"
  by (simp add: triggers_at_exit_def run_script_final state_after_setup)

theorem triggers_stay_disabled_witness:
  "(Seed 5434, validation_triggers, False) \<in> set (trace (fails_at 17))
   \<and> is_seed (Seed 5434)
   \<and> validation_triggers \<subseteq> triggers_at_exit (fails_at 17)
   \<and> triggers_at_exit (fails_at 17) = validation_triggers"
  using triggers_stay_disabled [OF seed_event_fail] seed_event_fail by simp

text \<open>
  Claim C9 as stated asks that no execution terminates with the triggers disabled. Two
  executions that do: the one in which every command succeeds (exit status 0), and the one
  in which the first seed fails (a fatal error, exit status not 0). In both the seed starts
  with the four triggers disabled and the script terminates with
  \<^verbatim>\<open>booking_update\<close> still disabled.
\<close>

theorem triggers_never_released_counterexample:
  "(Seed 5434, validation_triggers, True) \<in> set (trace all_succeed)
   \<and> exits_zero all_succeed
   \<and> (''pc-postgres'', ''booking'', ''booking_update'') \<in> triggers_at_exit all_succeed
   \<and> (''pc-timescaledb'', ''booking'', ''booking_update'') \<in> triggers_at_exit all_succeed
   \<and> (Seed 5434, validation_triggers, False) \<in> set (trace (fails_at 17))
   \<and> \<not> exits_zero (fails_at 17)
   \<and> (''pc-postgres'', ''booking'', ''booking_update'') \<in> triggers_at_exit (fails_at 17)"
proof -
  have a: "triggers_at_exit all_succeed = validation_triggers"
    by (rule exit_triggers) (simp add: n_ok_all length_script)
  have f: "triggers_at_exit (fails_at 17) = validation_triggers"
    by (rule exit_triggers) (simp add: n_ok_fails_at length_script)
  have m: "(''pc-postgres'', ''booking'', ''booking_update'') \<in> validation_triggers"
    "(''pc-timescaledb'', ''booking'', ''booking_update'') \<in> validation_triggers"
    by (simp_all add: validation_triggers_def)
  have e: "exits_zero all_succeed" "\<not> exits_zero (fails_at 17)"
    by (simp_all add: exits_zero_n_ok n_ok_all n_ok_fails_at length_script)
  from a f m e seed_event_all seed_event_fail show ?thesis
    by simp
qed

section \<open>Properties of the incremental seeding test\<close>

lemma for_sizes_stop:
  "for_sizes env xs = (ls, None) \<Longrightarrow> iteration SIZE (env SIZE) = (l, Some e) \<Longrightarrow>
   for_sizes env (xs @ SIZE # ys) = (ls @ l, Some e)"
proof (induction xs arbitrary: ls)
  case Nil
  then show ?case by simp
next
  case (Cons x xs)
  from Cons.prems(1) obtain l1 l2 where
    x: "iteration x (env x) = (l1, None)" and r: "for_sizes env xs = (l2, None)" and ls: "ls = l1 @ l2"
    by (auto split: prod.splits option.splits)
  from Cons.IH [OF r Cons.prems(2)] x ls show ?case
    by simp
qed

lemma iteration_zero:
  "tee_ok r \<Longrightarrow> end_time r = start_time r \<Longrightarrow>
   iteration SIZE r = ([Testing SIZE, Completed SIZE 0], Some (ExpansionError DivisionByZero))"
  by (simp add: iteration_def bash_div_def)

lemma iteration_nonzero:
  "tee_ok r \<Longrightarrow> end_time r - start_time r = d \<Longrightarrow> d \<noteq> 0 \<Longrightarrow> tdiv SIZE d = RATE \<Longrightarrow> RATE \<noteq> 0 \<Longrightarrow>
   iteration SIZE r =
     ([Testing SIZE, Completed SIZE d, Rate RATE, Extrapolations,
       Estimate 1000000 (tdiv 1000000 RATE) (tdiv (tdiv 1000000 RATE) 60),
       Estimate 2000000 (tdiv 2000000 RATE) (tdiv (tdiv 2000000 RATE) 60),
       Estimate 5000000 (tdiv 5000000 RATE) (tdiv (tdiv 5000000 RATE) 60)], None)"
  by (simp add: iteration_def bash_div_def estimate_def)


lemma iteration_testing: "Testing s \<in> set (fst (iteration SIZE r)) \<Longrightarrow> s = SIZE"
  by (auto simp: iteration_def Let_def estimate_def bash_div_def split: if_splits)

lemma for_sizes_testing: "Testing s \<in> set (fst (for_sizes env xs)) \<Longrightarrow> s \<in> set xs"
proof (induction xs)
  case Nil
  then show ?case by simp
next
  case (Cons x xs)
  obtain l e where it: "iteration x (env x) = (l, e)"
    by (cases "iteration x (env x)")
  obtain l' e' where rest: "for_sizes env xs = (l', e')"
    by (cases "for_sizes env xs")
  from Cons.prems it rest have "Testing s \<in> set l \<or> Testing s \<in> set l'"
    by (cases e) auto
  then show ?case
  proof
    assume "Testing s \<in> set l"
    with it iteration_testing [of s x "env x"] show ?thesis by simp
  next
    assume "Testing s \<in> set l'"
    with rest Cons.IH show ?thesis by simp
  qed
qed

text \<open>
  Claim C10. The rate is \<^verbatim>\<open>$((SIZE / DURATION))\<close> with no test of
  \<^verbatim>\<open>DURATION\<close> before it. For any of the tested sizes whose seeding run starts and
  ends within the same second, with the earlier sizes reported normally: the division is a
  division by zero; the iteration prints the "Completed ... in 0 seconds" line and then
  ends with the expansion error, printing neither a rate nor an extrapolation; the loop
  ends there, and none of the later sizes is tested.
\<close>

theorem zero_duration_aborts_test:
  assumes "SIZES = xs @ SIZE # ys"
    and "for_sizes env xs = (ls, None)"
    and "tee_ok (env SIZE)"
    and "end_time (env SIZE) = start_time (env SIZE)"
  shows "bash_div SIZE (end_time (env SIZE) - start_time (env SIZE)) = Inl DivisionByZero
    \<and> iteration SIZE (env SIZE) =
        ([Testing SIZE, Completed SIZE 0], Some (ExpansionError DivisionByZero))
    \<and> for_sizes env SIZES =
        (ls @ [Testing SIZE, Completed SIZE 0], Some (ExpansionError DivisionByZero))
    \<and> (\<forall>s \<in> set ys. Testing s \<notin> set (fst (for_sizes env SIZES)))"
proof -
  have d: "bash_div SIZE (end_time (env SIZE) - start_time (env SIZE)) = Inl DivisionByZero"
    using assms(4) by (simp add: bash_div_def)
  have it: "iteration SIZE (env SIZE) =
      ([Testing SIZE, Completed SIZE 0], Some (ExpansionError DivisionByZero))"
    using assms(3,4) by (rule iteration_zero)
  have loop: "for_sizes env SIZES =
      (ls @ [Testing SIZE, Completed SIZE 0], Some (ExpansionError DivisionByZero))"
    using for_sizes_stop [OF assms(2) it, of ys] by (simp only: assms(1))
  have "distinct SIZES"
    by (simp add: SIZES_def)
  then have dist: "distinct (xs @ SIZE # ys)"
    by (simp only: assms(1))
  have later: "Testing s \<notin> set (fst (for_sizes env SIZES))" if s: "s \<in> set ys" for s
  proof
    assume "Testing s \<in> set (fst (for_sizes env SIZES))"
    with loop have "Testing s \<in> set ls \<or> s = SIZE"
      by auto
    moreover from dist s have "s \<noteq> SIZE" "s \<notin> set xs"
      by auto
    moreover have "Testing s \<in> set ls \<Longrightarrow> s \<in> set xs"
      using for_sizes_testing [of s env xs] assms(2) by simp
    ultimately show False
      by blast
  qed
  from d it loop later show ?thesis
    by blast
qed

theorem zero_duration_aborts_test_witness:
  "SIZES = [] @ 10000 # [100000, 500000]
   \<and> for_sizes same_second [] = ([], None)
   \<and> tee_ok (same_second 10000)
   \<and> end_time (same_second 10000) = start_time (same_second 10000)
   \<and> for_sizes same_second SIZES =
        ([Testing 10000, Completed 10000 0], Some (ExpansionError DivisionByZero))
   \<and> Testing 100000 \<notin> set (fst (for_sizes same_second SIZES))
   \<and> Testing 500000 \<notin> set (fst (for_sizes same_second SIZES))"
proof -
  have a: "SIZES = [] @ 10000 # [100000, 500000]"
    by (simp add: SIZES_def)
  have b: "for_sizes same_second [] = ([], None)"
    by simp
  have c: "tee_ok (same_second 10000)"
    by (simp add: same_second_def)
  have d: "end_time (same_second 10000) = start_time (same_second 10000)"
    by (simp add: same_second_def)
  from zero_duration_aborts_test [OF a b c d] a b c d show ?thesis
    by simp
qed

text \<open>
  When the elapsed time is not zero the rate printed is the truncated quotient; and the
  whole script on a first run of zero seconds prints its closing banner after the loop has
  been discarded.
\<close>

lemma rate_reported:
  "tee_ok r \<Longrightarrow> end_time r - start_time r \<noteq> 0 \<Longrightarrow>
   Rate (tdiv SIZE (end_time r - start_time r)) \<in> set (fst (iteration SIZE r))"
  by (auto simp: iteration_def Let_def estimate_def bash_div_def split: sum.splits)

lemma script_zero_duration:
  "incremental_test True same_second = ([Banner, Testing 10000, Completed 10000 0, Finished], True)"
  by (simp add: incremental_test_def SIZES_def iteration_def same_second_def bash_div_def)

section \<open>Properties of the generator\<close>

subsection \<open>Batch integrity\<close>

lemma concat_paginate: "0 < n \<Longrightarrow> concat (paginate n xs) = xs"
proof (induction n xs rule: paginate.induct)
  case (1 n xs)
  show ?case
  proof (cases "xs = []")
    case True
    then show ?thesis by (simp add: paginate.simps)
  next
    case False
    with 1 have "concat (paginate n (drop n xs)) = drop n xs" by simp
    with False 1(2) show ?thesis
      by (subst paginate.simps) simp
  qed
qed


















subsection \<open>Postal codes are in range\<close>

lemma postal_code_valid: "valid_postal_code (postal_code i)"
proof -
  have "0 \<le> i mod 90000" "i mod 90000 < 90000"
    by simp_all
  then show ?thesis
    by (simp add: valid_postal_code_def postal_code_def)
qed

lemma insert_postal_codes_ok:
  "list_all valid_postal_code (concat bs) \<Longrightarrow>
   insert_postal_codes ent k bs table = Inr (table @ concat bs)"
  by (induction bs arbitrary: k table) simp_all

lemma insert_postal_codes_fail:
  "\<not> list_all valid_postal_code (concat bs) \<Longrightarrow>
   \<exists>k'. insert_postal_codes ent k bs table = Inl (CheckViolation ent k')"
  by (induction bs arbitrary: k table) auto

lemma generate_postal_codes_cases:
  assumes "0 < batch_size"
  shows "generate_postal_codes formula ent count batch_size =
    (if list_all valid_postal_code (map (\<lambda>i. formula (int i)) [0..<count])
     then Inr (map (\<lambda>i. formula (int i)) [0..<count])
     else generate_postal_codes formula ent count batch_size)
   \<and> (\<not> list_all valid_postal_code (map (\<lambda>i. formula (int i)) [0..<count]) \<longrightarrow>
       (\<exists>k. generate_postal_codes formula ent count batch_size = Inl (CheckViolation ent k)))"
  using insert_postal_codes_ok [of "paginate batch_size (map (\<lambda>i. formula (int i)) [0..<count])" ent 0 "[]"]
    insert_postal_codes_fail [of "paginate batch_size (map (\<lambda>i. formula (int i)) [0..<count])" ent 0 "[]"]
    concat_paginate [OF assms, of "map (\<lambda>i. formula (int i)) [0..<count]"]
  by (simp add: generate_postal_codes_def)

text \<open>
  Claim C4. Every postal code the formula produces is inside 10000 to 99999, so the
  generation of addresses and venues with it goes through and stores exactly the codes
  produced. For any formula, a generation that goes through has stored the codes as they
  were produced (none was brought into range) and all of them are valid; and if the
  formula produces a code outside the range for one of the rows, the generation fails
  with a check violation.
\<close>

theorem postal_codes_in_range:
  "valid_postal_code (postal_code i)
   \<and> (0 < batch_size \<longrightarrow>
        generate_postal_codes postal_code ent count batch_size =
          Inr (map (\<lambda>i. postal_code (int i)) [0..<count]))
   \<and> (0 < batch_size \<longrightarrow> generate_postal_codes formula ent count batch_size = Inr table \<longrightarrow>
        table = map (\<lambda>i. formula (int i)) [0..<count] \<and> list_all valid_postal_code table)
   \<and> (0 < batch_size \<longrightarrow> j < count \<longrightarrow> \<not> valid_postal_code (formula (int j)) \<longrightarrow>
        (\<exists>k. generate_postal_codes formula ent count batch_size = Inl (CheckViolation ent k)))"
proof -
  have all: "list_all valid_postal_code (map (\<lambda>i. postal_code (int i)) [0..<count])"
    by (simp add: list_all_iff postal_code_valid)
  have fixed: "generate_postal_codes postal_code ent count batch_size =
      Inr (map (\<lambda>i. postal_code (int i)) [0..<count])" if "0 < batch_size"
    using generate_postal_codes_cases [OF that, of postal_code ent count] all by simp
  have stored: "table = map (\<lambda>i. formula (int i)) [0..<count] \<and> list_all valid_postal_code table"
    if "0 < batch_size" "generate_postal_codes formula ent count batch_size = Inr table"
    using generate_postal_codes_cases [OF that(1), of formula ent count] that(2)
    by (cases "list_all valid_postal_code (map (\<lambda>i. formula (int i)) [0..<count])") auto
  have fails: "\<exists>k. generate_postal_codes formula ent count batch_size = Inl (CheckViolation ent k)"
    if "0 < batch_size" "j < count" "\<not> valid_postal_code (formula (int j))"
  proof -
    from that(2,3) have "\<not> list_all valid_postal_code (map (\<lambda>i. formula (int i)) [0..<count])"
      by (auto simp: list_all_iff)
    with generate_postal_codes_cases [OF that(1), of formula ent count] show ?thesis
      by blast
  qed
  from postal_code_valid fixed stored fails show ?thesis
    by blast
qed

theorem postal_codes_in_range_witness:
  "valid_postal_code (postal_code 89999) \<and> postal_code 89999 = 99999
   \<and> generate_postal_codes postal_code Address 3 2 = Inr [10000, 10001, 10002]
   \<and> list_all valid_postal_code [10000, 10001, 10002]
   \<and> \<not> valid_postal_code (postal_code_before_fix (int 0))
   \<and> (\<exists>k. generate_postal_codes postal_code_before_fix Address 3 2 = Inl (CheckViolation Address k))"
proof -
  have u: "[0..<3] = [0, 1, 2]"
    by (simp add: upt_rec)
  have b: "\<not> valid_postal_code (postal_code_before_fix (int 0))"
    by (simp add: valid_postal_code_def postal_code_before_fix_def)
  have p: "postal_code 89999 = 99999" "postal_code 0 = 10000" "postal_code 1 = 10001" "postal_code 2 = 10002"
    by (simp_all add: postal_code_def)
  from postal_codes_in_range [of 89999 2 Address 3 postal_code "[10000, 10001, 10002]" 0]
    postal_codes_in_range [of 89999 2 Address 3 postal_code_before_fix "[]" 0] u b p
  show ?thesis
    by simp
qed

section \<open>Properties of the benchmark runner and the compression report\<close>

subsection \<open>The scenario suite and its repetitions\<close>











text \<open>A run in which one execution of a scenario times out: nine samples, one failure.\<close>

lemma failed_execution_counted:
  "samples (run_scenario fourth_times_out default_repetitions
      \<lparr>scenario_name = ''venue_filter_60d'', scenario_query = VenueFilter, window_days = 60\<rparr>)
     = [60, 61, 62, 64, 65, 66, 67, 68, 69]
   \<and> failures (run_scenario fourth_times_out default_repetitions
      \<lparr>scenario_name = ''venue_filter_60d'', scenario_query = VenueFilter, window_days = 60\<rparr>) = 1"
  by code_simp

subsection \<open>Compression ratios\<close>

lemma report_chunk_Inr:
  "report_chunk c = Inr r \<Longrightarrow>
   r = (chunk_name c, compression_ratio c) \<and> 1 \<le> compression_ratio c \<and> compressed_bytes c \<noteq> 0"
  by (auto simp: report_chunk_def split: if_splits)

lemma report_chunks_Inr:
  "report_chunks cs = Inr rs \<Longrightarrow>
   rs = map (\<lambda>c. (chunk_name c, compression_ratio c)) cs \<and> (\<forall>c \<in> set cs. 1 \<le> compression_ratio c)"
proof (induction cs arbitrary: rs)
  case Nil
  then show ?case by simp
next
  case (Cons c cs)
  from Cons.prems obtain r rs' where
    r: "report_chunk c = Inr r" and rs': "report_chunks cs = Inr rs'" and rs: "rs = r # rs'"
    by (auto split: sum.splits)
  from report_chunk_Inr [OF r] Cons.IH [OF rs'] rs show ?case
    by simp
qed

lemma report_chunks_below_one:
  "c \<in> set cs \<Longrightarrow> compression_ratio c < 1 \<Longrightarrow> \<exists>e. report_chunks cs = Inl e"
proof (rule ccontr)
  assume c: "c \<in> set cs" "compression_ratio c < 1" and "\<nexists>e. report_chunks cs = Inl e"
  then obtain rs where "report_chunks cs = Inr rs"
    by (cases "report_chunks cs") auto
  from report_chunks_Inr [OF this] c show False
    by auto
qed

text \<open>
  Claim C8. A report that is produced lists, for every chunk processed and in order, the
  chunk's name with its ratio of uncompressed to compressed size, and every ratio listed
  is at least 1. If some chunk's ratio is below 1 no report is produced: the result is an
  error, and for that chunk on its own it is the error \<open>RatioBelowOne\<close> carrying the
  chunk's name and the ratio.
\<close>

theorem compression_ratio_at_least_one:
  "(report_chunks cs = Inr rs \<longrightarrow>
      rs = map (\<lambda>c. (chunk_name c, compression_ratio c)) cs \<and> (\<forall>r \<in> set rs. 1 \<le> snd r))
   \<and> (c \<in> set cs \<longrightarrow> compression_ratio c < 1 \<longrightarrow> (\<exists>e. report_chunks cs = Inl e))
   \<and> (compressed_bytes c \<noteq> 0 \<longrightarrow> compression_ratio c < 1 \<longrightarrow>
        report_chunk c = Inl (RatioBelowOne (chunk_name c) (compression_ratio c)))"
proof -
  have a: "rs = map (\<lambda>c. (chunk_name c, compression_ratio c)) cs \<and> (\<forall>r \<in> set rs. 1 \<le> snd r)"
    if "report_chunks cs = Inr rs"
    using report_chunks_Inr [OF that] by auto
  have b: "report_chunk c = Inl (RatioBelowOne (chunk_name c) (compression_ratio c))"
    if "compressed_bytes c \<noteq> 0" "compression_ratio c < 1"
    using that by (simp add: report_chunk_def)
  from a b report_chunks_below_one [of c cs] show ?thesis
    by blast
qed

theorem compression_ratio_at_least_one_witness:
  "report_chunks [shrunk_chunk] = Inr [(''_hyper_1_1_chunk'', 4)]
   \<and> 1 \<le> snd (''_hyper_1_1_chunk'', 4 :: rat)
   \<and> grown_chunk \<in> set [shrunk_chunk, grown_chunk]
   \<and> compressed_bytes grown_chunk \<noteq> 0
   \<and> compression_ratio grown_chunk < 1
   \<and> (\<exists>e. report_chunks [shrunk_chunk, grown_chunk] = Inl e)
   \<and> report_chunk grown_chunk = Inl (RatioBelowOne ''_hyper_1_2_chunk'' (1 / 2))"
proof -
  have s: "report_chunks [shrunk_chunk] = Inr [(''_hyper_1_1_chunk'', 4)]"
    by (simp add: report_chunk_def compression_ratio_def shrunk_chunk_def)
  have g: "compression_ratio grown_chunk = 1 / 2" "compressed_bytes grown_chunk \<noteq> 0"
    "chunk_name grown_chunk = ''_hyper_1_2_chunk''"
    by (simp_all add: compression_ratio_def grown_chunk_def)
  from compression_ratio_at_least_one [of "[shrunk_chunk]" "[(''_hyper_1_1_chunk'', 4)]" grown_chunk]
    compression_ratio_at_least_one [of "[shrunk_chunk, grown_chunk]" "[]" grown_chunk] s g
  show ?thesis
    by simp
qed

end
